theory Spec2Isabelle
  imports Main "HOL-Library.Sublist"
begin

section \<open>The canonical node model (src/types.ts)\<close>

text \<open>
  The engine is TypeScript compiled to JavaScript. The interfaces of \<^verbatim>\<open>types.ts\<close> are the
  data model: one constructor per node interface, one argument per declared field, in the
  order given in the comment after each constructor.

  \<^item> A field marked \<^verbatim>\<open>?\<close> is an \<open>option\<close>: \<open>None\<close> is the absent property, which
    reads as \<^verbatim>\<open>undefined\<close>.
  \<^item> \<^verbatim>\<open>alternate?: ASTNode[] | null\<close> has three states, kept apart by \<open>nullable\<close>.
  \<^item> A \<^verbatim>\<open>body\<close> array is a list of slots. \<open>None\<close> is an empty slot (a hole) of a
    JavaScript array: assigning beyond the end of an array, which \<^verbatim>\<open>replaceNode\<close> does
    on a stale index, leaves holes behind. \<^verbatim>\<open>forEach\<close> and \<^verbatim>\<open>map\<close> skip a hole,
    \<^verbatim>\<open>join\<close> prints it as the empty string, reading it gives \<^verbatim>\<open>undefined\<close>. No
    operation of the engine writes to any other array, so \<^verbatim>\<open>consequent\<close>,
    \<^verbatim>\<open>alternate\<close>, \<^verbatim>\<open>commands\<close>, \<^verbatim>\<open>redirects\<close>, \<^verbatim>\<open>arguments\<close> and
    \<^verbatim>\<open>parameters\<close> are dense lists.
  \<^item> A \<^verbatim>\<open>number\<close> field is an \<open>int\<close> (a file descriptor); an array index is a
    \<open>nat\<close>, as \<^verbatim>\<open>forEach\<close> counts from 0.
  \<^item> \<open>Other\<close> is an \<^verbatim>\<open>ASTNode\<close> of no declared kind: the interface only asks for a
    \<^verbatim>\<open>type\<close> string. Its tag is meant to be none of the ten declared tags (a node
    carrying a declared tag has that kind's fields and is built by that kind's
    constructor); of its further properties only \<^verbatim>\<open>body\<close> is kept, the one the
    engine looks at on a node of any kind.
  \<^item> The tree is a value: a node that sits at two places of the tree is two equal
    subtrees, not one shared object.
\<close>

record Position =
  line :: nat
  column :: nat

record Location =
  loc_start :: Position
  loc_end :: Position

datatype 'a nullable = Absent | Null | Present 'a

datatype LoopKind = For | While | Until

datatype CommentKind = Line | Block

datatype ASTNode =
    Program "Location option" "ASTNode option list"
      \<comment> \<open>loc, body\<close>
  | Command "Location option" string "string list" "ASTNode list option"
      \<comment> \<open>loc, name, arguments, redirects?\<close>
  | Variable "Location option" string string "bool option" "bool option"
      \<comment> \<open>loc, name, value, export?, readonly?\<close>
  | Conditional "Location option" string "ASTNode list" "ASTNode list nullable"
      \<comment> \<open>loc, condition, consequent, alternate?\<close>
  | Loop "Location option" LoopKind "string option" "string option" "ASTNode option list"
      \<comment> \<open>loc, kind, variable?, condition?, body\<close>
  | Function "Location option" string "ASTNode option list" "string list option"
      \<comment> \<open>loc, name, body, parameters?\<close>
  | Pipeline "Location option" "ASTNode list" "bool option"
      \<comment> \<open>loc, commands, negated?\<close>
  | Redirect "Location option" string string "int option"
      \<comment> \<open>loc, operator, target, fd?\<close>
  | Subshell "Location option" "ASTNode option list"
      \<comment> \<open>loc, body\<close>
  | Comment "Location option" string CommentKind
      \<comment> \<open>loc, value, kind\<close>
  | Other "Location option" string "ASTNode option list option"
      \<comment> \<open>loc, type, body?\<close>

text \<open>The \<^verbatim>\<open>type\<close> discriminator of a node.\<close>

fun node_type :: "ASTNode \<Rightarrow> string" where
  "node_type (Program loc body) = ''Program''"
| "node_type (Command loc name arguments redirects) = ''Command''"
| "node_type (Variable loc name val export readonly) = ''Variable''"
| "node_type (Conditional loc condition consequent alternate) = ''Conditional''"
| "node_type (Loop loc kind variable condition body) = ''Loop''"
| "node_type (Function loc name body parameters) = ''Function''"
| "node_type (Pipeline loc commands negated) = ''Pipeline''"
| "node_type (Redirect loc operator target fd) = ''Redirect''"
| "node_type (Subshell loc body) = ''Subshell''"
| "node_type (Comment loc val kind) = ''Comment''"
| "node_type (Other loc tag body) = tag"

text \<open>The tags that \<^verbatim>\<open>astToSource\<close> has a \<^verbatim>\<open>case\<close> for.\<close>

definition known_kinds :: "string list" where
  "known_kinds = [''Program'', ''Command'', ''Variable'', ''Conditional'', ''Loop'',
     ''Function'', ''Pipeline'', ''Redirect'', ''Subshell'', ''Comment'']"

text \<open>
  \<^verbatim>\<open>node.body && Array.isArray(node.body)\<close>: the body array of a node that has one.
  An empty array is truthy in JavaScript, so an empty body counts.
\<close>

fun body_of :: "ASTNode \<Rightarrow> ASTNode option list option" where
  "body_of (Program loc body) = Some body"
| "body_of (Loop loc kind variable condition body) = Some body"
| "body_of (Function loc name body parameters) = Some body"
| "body_of (Subshell loc body) = Some body"
| "body_of (Other loc tag body) = body"
| "body_of (Command loc name arguments redirects) = None"
| "body_of (Variable loc name val export readonly) = None"
| "body_of (Conditional loc condition consequent alternate) = None"
| "body_of (Pipeline loc commands negated) = None"
| "body_of (Redirect loc operator target fd) = None"
| "body_of (Comment loc val kind) = None"

section \<open>Source generation (Transformer.astToSource)\<close>

record SourceOptions =
  quote :: "string option"
  indent :: "nat option"
  lineEnding :: "string option"

text \<open>\<^verbatim>\<open>options.lineEnding || '\n'\<close>: the empty string is falsy as well.\<close>

definition lineEnding_of :: "SourceOptions \<Rightarrow> string" where
  "lineEnding_of options =
     (case lineEnding options of
        None \<Rightarrow> [CHR 0x0A]
      | Some s \<Rightarrow> if s = [] then [CHR 0x0A] else s)"

text \<open>\<^verbatim>\<open>Array.prototype.join\<close> on an array of strings.\<close>

fun join :: "string \<Rightarrow> string list \<Rightarrow> string" where
  "join sep [] = []"
| "join sep [x] = x"
| "join sep (x # y # ys) = x @ sep @ join sep (y # ys)"

text \<open>A value in a template literal or under \<^verbatim>\<open>+\<close> with a string: an absent string
  property prints as \<^verbatim>\<open>undefined\<close>, a number in decimal.\<close>

fun text_of :: "string option \<Rightarrow> string" where
  "text_of None = ''undefined''"
| "text_of (Some s) = s"

definition digit :: "nat \<Rightarrow> char" where
  "digit d = ''0123456789'' ! (d mod 10)"

function string_of_nat :: "nat \<Rightarrow> string" where
  "string_of_nat n = (if n < 10 then [digit n] else string_of_nat (n div 10) @ [digit n])"
  by pat_completeness auto
termination
  by (relation "measure id") auto

definition string_of_int :: "int \<Rightarrow> string" where
  "string_of_int i = (if i < 0 then CHR ''-'' # string_of_nat (nat (- i)) else string_of_nat (nat i))"

text \<open>JavaScript truthiness of an optional boolean flag.\<close>

fun truthy :: "bool option \<Rightarrow> bool" where
  "truthy None = False"
| "truthy (Some b) = b"

text \<open>
  One equation per \<^verbatim>\<open>case\<close> of the \<^verbatim>\<open>switch (node.type)\<close>. The \<open>Loop\<close> case
  has no branch for \<^verbatim>\<open>until\<close>: it leaves the switch by \<^verbatim>\<open>break\<close> and reaches the
  final \<^verbatim>\<open>return ''\<close>. \<open>Other\<close> is the \<^verbatim>\<open>default\<close> case.
\<close>

fun astToSource :: "ASTNode \<Rightarrow> SourceOptions \<Rightarrow> string" where
  "astToSource (Program loc body) options =
     join (lineEnding_of options)
       (map (\<lambda>slot. case slot of None \<Rightarrow> [] | Some child \<Rightarrow> astToSource child options) body)"
| "astToSource (Command loc name arguments redirects) options =
     (name
      @ (if length arguments > 0 then '' '' @ join '' '' arguments else [])
      @ (case redirects of
           None \<Rightarrow> []
         | Some rs \<Rightarrow>
             if length rs > 0 then '' '' @ join '' '' (map (\<lambda>r. astToSource r options) rs)
             else []))"
| "astToSource (Variable loc name val export readonly) options =
     (let varStr = name;
          varStr = (if truthy export then ''export '' @ varStr else varStr);
          varStr = (if truthy readonly then ''readonly '' @ varStr else varStr)
      in varStr @ ''='' @ val)"
| "astToSource (Conditional loc condition consequent alternate) options =
     (''if '' @ condition @ ''; then'' @ lineEnding_of options
      @ join (lineEnding_of options) (map (\<lambda>child. ''  '' @ astToSource child options) consequent)
      @ (case alternate of
           Present alt \<Rightarrow>
             lineEnding_of options @ ''else'' @ lineEnding_of options
             @ join (lineEnding_of options) (map (\<lambda>child. ''  '' @ astToSource child options) alt)
         | _ \<Rightarrow> [])
      @ lineEnding_of options @ ''fi'')"
| "astToSource (Loop loc For variable condition body) options =
     (''for '' @ text_of variable @ ''; do'' @ lineEnding_of options @ ''  ''
      @ join (lineEnding_of options @ ''  '')
          (map (\<lambda>slot. case slot of None \<Rightarrow> [] | Some child \<Rightarrow> astToSource child options) body)
      @ lineEnding_of options @ ''done'')"
| "astToSource (Loop loc While variable condition body) options =
     (''while '' @ text_of condition @ ''; do'' @ lineEnding_of options @ ''  ''
      @ join (lineEnding_of options @ ''  '')
          (map (\<lambda>slot. case slot of None \<Rightarrow> [] | Some child \<Rightarrow> astToSource child options) body)
      @ lineEnding_of options @ ''done'')"
| "astToSource (Loop loc Until variable condition body) options = []"
| "astToSource (Function loc name body parameters) options =
     (''function '' @ name @ ''() {'' @ lineEnding_of options @ ''  ''
      @ join (lineEnding_of options @ ''  '')
          (map (\<lambda>slot. case slot of None \<Rightarrow> [] | Some child \<Rightarrow> astToSource child options) body)
      @ lineEnding_of options @ ''}'')"
| "astToSource (Pipeline loc commands negated) options =
     (let pipeline = join '' | '' (map (\<lambda>cmd. astToSource cmd options) commands)
      in if truthy negated then ''!'' @ pipeline else pipeline)"
| "astToSource (Redirect loc operator target fd) options =
     ((case fd of None \<Rightarrow> [] | Some n \<Rightarrow> string_of_int n) @ operator @ target)"
| "astToSource (Subshell loc body) options =
     (''('' @ join ''; ''
        (map (\<lambda>slot. case slot of None \<Rightarrow> [] | Some child \<Rightarrow> astToSource child options) body)
      @ '')'')"
| "astToSource (Comment loc val kind) options =
     (if kind = Line then ''# '' @ val else ''# '' @ val)"
| "astToSource (Other loc tag body) options = []"

section \<open>Query engine (Transformer.findNodes, walkAST, matchesFilter, arraysEqual)\<close>

text \<open>
  A filter is a \<^verbatim>\<open>Record<string, any>\<close> built by the caller, and \<^verbatim>\<open>node[key]\<close> reads
  any property of a node, so both sides of \<^verbatim>\<open>===\<close> are JavaScript values. \<open>JObject\<close>
  is an object that is not an array (a location record, a node, an object literal in a
  filter). Numbers are integers. Arrays and objects compare by reference under
  \<^verbatim>\<open>===\<close>: the array or object a caller writes into a filter is an object of its
  own, never the one stored in the tree, so the comparison of two of them is false.
  Properties a node inherits from \<^verbatim>\<open>Object.prototype\<close> are left out: a key that is
  no own property reads as \<^verbatim>\<open>undefined\<close>.
\<close>

datatype jsval = JUndefined | JNull | JBool bool | JNum int | JStr string
  | JArray "jsval list" | JObject

fun strict_eq :: "jsval \<Rightarrow> jsval \<Rightarrow> bool" where
  "strict_eq JUndefined JUndefined = True"
| "strict_eq JNull JNull = True"
| "strict_eq (JBool a) (JBool b) = (a = b)"
| "strict_eq (JNum a) (JNum b) = (a = b)"
| "strict_eq (JStr a) (JStr b) = (a = b)"
| "strict_eq _ _ = False"

fun isArray :: "jsval \<Rightarrow> bool" where
  "isArray (JArray xs) = True"
| "isArray _ = False"

text \<open>The own properties of a node, as JavaScript values. An absent optional field is
  no property. A hole of a body array reads as \<^verbatim>\<open>undefined\<close>.\<close>

definition opt_prop :: "string \<Rightarrow> ('a \<Rightarrow> jsval) \<Rightarrow> 'a option \<Rightarrow> (string \<times> jsval) list" where
  "opt_prop key f x = (case x of None \<Rightarrow> [] | Some v \<Rightarrow> [(key, f v)])"

definition nodes_val :: "ASTNode list \<Rightarrow> jsval" where
  "nodes_val xs = JArray (map (\<lambda>n. JObject) xs)"

definition slots_val :: "ASTNode option list \<Rightarrow> jsval" where
  "slots_val xs = JArray (map (\<lambda>slot. case slot of None \<Rightarrow> JUndefined | Some n \<Rightarrow> JObject) xs)"

definition strings_val :: "string list \<Rightarrow> jsval" where
  "strings_val xs = JArray (map JStr xs)"

fun kind_text :: "LoopKind \<Rightarrow> string" where
  "kind_text For = ''for''"
| "kind_text While = ''while''"
| "kind_text Until = ''until''"

fun comment_kind_text :: "CommentKind \<Rightarrow> string" where
  "comment_kind_text Line = ''line''"
| "comment_kind_text Block = ''block''"

fun props :: "ASTNode \<Rightarrow> (string \<times> jsval) list" where
  "props (Program loc body) =
     [(''type'', JStr ''Program''), (''body'', slots_val body), (''sourceType'', JStr ''script'')]
     @ opt_prop ''loc'' (\<lambda>l. JObject) loc"
| "props (Command loc name arguments redirects) =
     [(''type'', JStr ''Command''), (''name'', JStr name), (''arguments'', strings_val arguments)]
     @ opt_prop ''redirects'' nodes_val redirects @ opt_prop ''loc'' (\<lambda>l. JObject) loc"
| "props (Variable loc name val export readonly) =
     [(''type'', JStr ''Variable''), (''name'', JStr name), (''value'', JStr val)]
     @ opt_prop ''export'' JBool export @ opt_prop ''readonly'' JBool readonly
     @ opt_prop ''loc'' (\<lambda>l. JObject) loc"
| "props (Conditional loc condition consequent alternate) =
     [(''type'', JStr ''Conditional''), (''condition'', JStr condition),
      (''consequent'', nodes_val consequent)]
     @ (case alternate of
          Absent \<Rightarrow> []
        | Null \<Rightarrow> [(''alternate'', JNull)]
        | Present alt \<Rightarrow> [(''alternate'', nodes_val alt)])
     @ opt_prop ''loc'' (\<lambda>l. JObject) loc"
| "props (Loop loc kind variable condition body) =
     [(''type'', JStr ''Loop''), (''kind'', JStr (kind_text kind)), (''body'', slots_val body)]
     @ opt_prop ''variable'' JStr variable @ opt_prop ''condition'' JStr condition
     @ opt_prop ''loc'' (\<lambda>l. JObject) loc"
| "props (Function loc name body parameters) =
     [(''type'', JStr ''Function''), (''name'', JStr name), (''body'', slots_val body)]
     @ opt_prop ''parameters'' strings_val parameters @ opt_prop ''loc'' (\<lambda>l. JObject) loc"
| "props (Pipeline loc commands negated) =
     [(''type'', JStr ''Pipeline''), (''commands'', nodes_val commands)]
     @ opt_prop ''negated'' JBool negated @ opt_prop ''loc'' (\<lambda>l. JObject) loc"
| "props (Redirect loc operator target fd) =
     [(''type'', JStr ''Redirect''), (''operator'', JStr operator), (''target'', JStr target)]
     @ opt_prop ''fd'' JNum fd @ opt_prop ''loc'' (\<lambda>l. JObject) loc"
| "props (Subshell loc body) =
     [(''type'', JStr ''Subshell''), (''body'', slots_val body)]
     @ opt_prop ''loc'' (\<lambda>l. JObject) loc"
| "props (Comment loc val kind) =
     [(''type'', JStr ''Comment''), (''value'', JStr val), (''kind'', JStr (comment_kind_text kind))]
     @ opt_prop ''loc'' (\<lambda>l. JObject) loc"
| "props (Other loc tag body) =
     [(''type'', JStr tag)] @ opt_prop ''body'' slots_val body @ opt_prop ''loc'' (\<lambda>l. JObject) loc"

text \<open>\<^verbatim>\<open>obj[key]\<close>: the property, or \<^verbatim>\<open>undefined\<close> when the object has none of
  that name.\<close>

definition lookup :: "(string \<times> jsval) list \<Rightarrow> string \<Rightarrow> jsval" where
  "lookup obj key = (case map_of obj key of None \<Rightarrow> JUndefined | Some v \<Rightarrow> v)"

definition get_prop :: "ASTNode \<Rightarrow> string \<Rightarrow> jsval" where
  "get_prop node key = lookup (props node) key"

text \<open>\<^verbatim>\<open>arr1.every((item, index) => item === arr2[index])\<close> runs after the length
  check, so \<^verbatim>\<open>arr2[index]\<close> is always in range.\<close>

fun arraysEqual :: "jsval \<Rightarrow> jsval \<Rightarrow> bool" where
  "arraysEqual (JArray arr1) (JArray arr2) =
     (if length arr1 \<noteq> length arr2 then False
      else list_all (\<lambda>(item, index). strict_eq item (arr2 ! index)) (zip arr1 [0..<length arr1]))"
| "arraysEqual _ _ = False"

definition matchesFilter :: "ASTNode \<Rightarrow> (string \<times> jsval) list \<Rightarrow> bool" where
  "matchesFilter node filter' =
     list_all
       (\<lambda>key. if key = ''arguments'' \<and> isArray (lookup filter' key)
              then arraysEqual (get_prop node ''arguments'') (lookup filter' key)
              else strict_eq (get_prop node key) (lookup filter' key))
       (map fst filter')"

record PathItem =
  pi_node :: ASTNode
  pi_index :: nat

text \<open>A handle of a collection. Its five operations are the closures
  \<^verbatim>\<open>replaceNode({value, path}, newNode)\<close> and so on of the section below.\<close>

record NodePath =
  np_value :: ASTNode
  np_path :: "PathItem list"

lemma size_body_child:
  assumes "body_of n = Some b" and "Some c \<in> set b"
  shows "size c < size n"
proof -
  have "size c < size_list (size_option size) b"
    by (rule size_list_estimation [OF assms(2)]) simp
  with assms(1) show ?thesis
    by (cases n) auto
qed

text \<open>
  \<^verbatim>\<open>walkAST(node, callback, path)\<close>. The callback has an effect (it pushes onto the
  collection), so it is a function on a state \<open>'s\<close> that the walk threads through.
  \<^verbatim>\<open>forEach\<close> passes each index and skips holes. Only \<^verbatim>\<open>node.body\<close> is followed.
\<close>

function walkAST ::
  "ASTNode \<Rightarrow> (ASTNode \<Rightarrow> PathItem list \<Rightarrow> 's \<Rightarrow> 's) \<Rightarrow> PathItem list \<Rightarrow> 's \<Rightarrow> 's" where
  "walkAST node callback path s =
     (case body_of node of
        None \<Rightarrow> callback node path s
      | Some body \<Rightarrow>
          fold (\<lambda>(slot, index) acc.
                  case slot of
                    None \<Rightarrow> acc
                  | Some child \<Rightarrow>
                      walkAST child callback (path @ [\<lparr>pi_node = child, pi_index = index\<rparr>]) acc)
            (zip body [0..<length body]) (callback node path s))"
  by pat_completeness auto
termination
  by (relation "measure (\<lambda>(n, c, p, s). size n)")
     (auto dest!: set_zip_leftD size_body_child)

definition findNodes :: "ASTNode \<Rightarrow> jsval \<Rightarrow> (string \<times> jsval) list \<Rightarrow> NodePath list" where
  "findNodes ast nodeType filter' =
     walkAST ast
       (\<lambda>node path collection.
          if strict_eq (JStr (node_type node)) nodeType \<and> matchesFilter node filter'
          then collection @ [\<lparr>np_value = node, np_path = path\<rparr>]
          else collection)
       [] []"

section \<open>Path-addressed mutation (Transformer.replaceNode and the like)\<close>

text \<open>The transformer keeps the tree it parsed last in \<^verbatim>\<open>rootAST\<close> (\<^verbatim>\<open>null\<close> before
  the first parse); every mutator reads the tree from there and returns nothing, so a
  mutator is a function from the transformer state to the new state.\<close>

record Transformer =
  rootAST :: "ASTNode option"

text \<open>\<^verbatim>\<open>array[index]\<close>: \<^verbatim>\<open>undefined\<close> (here \<open>None\<close>) beyond the end and at a hole.\<close>

definition slot_at :: "ASTNode option list \<Rightarrow> nat \<Rightarrow> ASTNode option" where
  "slot_at body i = (if i < length body then body ! i else None)"

text \<open>The loop of \<^verbatim>\<open>getNodeAtPath\<close>. \<open>None\<close> stands for both \<^verbatim>\<open>null\<close> (a step from a
  node without a body array) and \<^verbatim>\<open>undefined\<close> (an index that holds no node); the
  callers only test the result for truthiness.\<close>

fun getNodeAtPath_from :: "ASTNode option \<Rightarrow> PathItem list \<Rightarrow> ASTNode option" where
  "getNodeAtPath_from current [] = current"
| "getNodeAtPath_from current (pathItem # rest) =
     (case current of
        None \<Rightarrow> None
      | Some node \<Rightarrow>
          (case body_of node of
             None \<Rightarrow> None
           | Some body \<Rightarrow> getNodeAtPath_from (slot_at body (pi_index pathItem)) rest))"

definition getNodeAtPath :: "Transformer \<Rightarrow> PathItem list \<Rightarrow> ASTNode option" where
  "getNodeAtPath this path = getNodeAtPath_from (rootAST this) path"

text \<open>The three array operations the mutators use.
  \<^verbatim>\<open>body[i] = x\<close> beyond the end extends the array, leaving holes;
  \<^verbatim>\<open>splice\<close> clamps a start index beyond the end to the length.\<close>

definition assign_at :: "nat \<Rightarrow> ASTNode \<Rightarrow> ASTNode option list \<Rightarrow> ASTNode option list" where
  "assign_at i x body =
     (if i < length body then body[i := Some x]
      else body @ replicate (i - length body) None @ [Some x])"

definition splice_insert :: "nat \<Rightarrow> ASTNode \<Rightarrow> ASTNode option list \<Rightarrow> ASTNode option list" where
  "splice_insert i x body = take i body @ [Some x] @ drop i body"

definition splice_remove :: "nat \<Rightarrow> ASTNode option list \<Rightarrow> ASTNode option list" where
  "splice_remove i body = take i body @ drop (i + 1) body"

text \<open>
  The mutators change the array \<^verbatim>\<open>parent.body\<close> in place, where \<^verbatim>\<open>parent\<close> is the
  object \<^verbatim>\<open>getNodeAtPath\<close> returned. On the tree as a value this is \<open>store_body\<close>:
  the body of the node at that path is replaced and every node above it is rebuilt
  around the result. It follows the path exactly as \<^verbatim>\<open>getNodeAtPath\<close> does and leaves
  the tree alone where that returns no node.
\<close>

fun set_body :: "ASTNode \<Rightarrow> ASTNode option list \<Rightarrow> ASTNode" where
  "set_body (Program loc body) b = Program loc b"
| "set_body (Loop loc kind variable condition body) b = Loop loc kind variable condition b"
| "set_body (Function loc name body parameters) b = Function loc name b parameters"
| "set_body (Subshell loc body) b = Subshell loc b"
| "set_body (Other loc tag body) b = Other loc tag (Some b)"
| "set_body node b = node"

fun store_body :: "PathItem list \<Rightarrow> ASTNode option list \<Rightarrow> ASTNode \<Rightarrow> ASTNode" where
  "store_body [] b node = (case body_of node of None \<Rightarrow> node | Some old \<Rightarrow> set_body node b)"
| "store_body (pathItem # rest) b node =
     (case body_of node of
        None \<Rightarrow> node
      | Some body \<Rightarrow>
          (case slot_at body (pi_index pathItem) of
             None \<Rightarrow> node
           | Some child \<Rightarrow> set_body node (body[pi_index pathItem := Some (store_body rest b child)])))"

definition write_body :: "Transformer \<Rightarrow> PathItem list \<Rightarrow> ASTNode option list \<Rightarrow> Transformer" where
  "write_body this parentPath b =
     this\<lparr>rootAST := map_option (store_body parentPath b) (rootAST this)\<rparr>"

definition replaceNode :: "NodePath \<Rightarrow> ASTNode \<Rightarrow> Transformer \<Rightarrow> Transformer" where
  "replaceNode path newNode this =
     (if length (np_path path) = 0 then this
      else
        let lastPath = last (np_path path);
            parentPath = butlast (np_path path)
        in case getNodeAtPath this parentPath of
             None \<Rightarrow> this
           | Some parent \<Rightarrow>
               (case body_of parent of
                  None \<Rightarrow> this
                | Some body \<Rightarrow>
                    write_body this parentPath (assign_at (pi_index lastPath) newNode body)))"

definition insertBeforeNode :: "NodePath \<Rightarrow> ASTNode \<Rightarrow> Transformer \<Rightarrow> Transformer" where
  "insertBeforeNode path newNode this =
     (if length (np_path path) = 0 then this
      else
        let lastPath = last (np_path path);
            parentPath = butlast (np_path path)
        in case getNodeAtPath this parentPath of
             None \<Rightarrow> this
           | Some parent \<Rightarrow>
               (case body_of parent of
                  None \<Rightarrow> this
                | Some body \<Rightarrow>
                    write_body this parentPath (splice_insert (pi_index lastPath) newNode body)))"

definition insertAfterNode :: "NodePath \<Rightarrow> ASTNode \<Rightarrow> Transformer \<Rightarrow> Transformer" where
  "insertAfterNode path newNode this =
     (if length (np_path path) = 0 then this
      else
        let lastPath = last (np_path path);
            parentPath = butlast (np_path path)
        in case getNodeAtPath this parentPath of
             None \<Rightarrow> this
           | Some parent \<Rightarrow>
               (case body_of parent of
                  None \<Rightarrow> this
                | Some body \<Rightarrow>
                    write_body this parentPath (splice_insert (pi_index lastPath + 1) newNode body)))"

definition removeNode :: "NodePath \<Rightarrow> Transformer \<Rightarrow> Transformer" where
  "removeNode path this =
     (if length (np_path path) = 0 then this
      else
        let lastPath = last (np_path path);
            parentPath = butlast (np_path path)
        in case getNodeAtPath this parentPath of
             None \<Rightarrow> this
           | Some parent \<Rightarrow>
               (case body_of parent of
                  None \<Rightarrow> this
                | Some body \<Rightarrow>
                    write_body this parentPath (splice_remove (pi_index lastPath) body)))"

definition pruneNode :: "NodePath \<Rightarrow> Transformer \<Rightarrow> Transformer" where
  "pruneNode path this = removeNode path this"

section \<open>Parsing (BashParser.parse)\<close>

text \<open>
  \<^verbatim>\<open>parseBash\<close> is the external parser and \<^verbatim>\<open>convertToJSCodeshiftAST\<close> the conversion
  of its raw tree; both run inside the \<^verbatim>\<open>try\<close> block of \<^verbatim>\<open>parse\<close>. Either returns
  (\<open>Inr\<close>) or throws an \<^verbatim>\<open>Error\<close> with a message (\<open>Inl\<close>). The raw tree is whatever
  the parser produces (\<open>'raw\<close>); the conversion can throw as well (\<^verbatim>\<open>getNodeText\<close>
  reads the line of the source that a raw location names, and there may be no such
  line). The \<^verbatim>\<open>catch\<close> block throws a new \<^verbatim>\<open>Error\<close> whose message is the caught
  message behind a fixed prefix.
\<close>

datatype error = Error string

record ParserOptions =
  locations :: "bool option"
  comments :: "bool option"
  ranges :: "bool option"

record BashParser =
  parser_options :: ParserOptions

text \<open>The constructor: \<^verbatim>\<open>{locations: true, comments: true, ranges: true, ...options}\<close>.\<close>

definition new_BashParser :: "ParserOptions \<Rightarrow> BashParser" where
  "new_BashParser opts =
     \<lparr>parser_options =
        \<lparr>locations = (case locations opts of None \<Rightarrow> Some True | Some b \<Rightarrow> Some b),
         comments = (case comments opts of None \<Rightarrow> Some True | Some b \<Rightarrow> Some b),
         ranges = (case ranges opts of None \<Rightarrow> Some True | Some b \<Rightarrow> Some b)\<rparr>\<rparr>"

definition parse ::
  "(string \<Rightarrow> ParserOptions \<Rightarrow> string + 'raw) \<Rightarrow> ('raw \<Rightarrow> string \<Rightarrow> string + ASTNode) \<Rightarrow>
   BashParser \<Rightarrow> string \<Rightarrow> error + ASTNode" where
  "parse parseBash convertToJSCodeshiftAST this source =
     (case parseBash source (parser_options this) of
        Inl message \<Rightarrow> Inl (Error (''Failed to parse bash source: '' @ message))
      | Inr bashAST \<Rightarrow>
          (case convertToJSCodeshiftAST bashAST source of
             Inl message \<Rightarrow> Inl (Error (''Failed to parse bash source: '' @ message))
           | Inr ast \<Rightarrow> Inr ast))"

section \<open>What the specification says, as definitions\<close>

text \<open>The nodes held by a child sequence, holes left out.\<close>

definition present :: "'a option list \<Rightarrow> 'a list" where
  "present slots = concat (map (\<lambda>slot. case slot of None \<Rightarrow> [] | Some x \<Rightarrow> [x]) slots)"

text \<open>
  The specification lists four kinds of ordered child sequence that a query follows:
  \<^verbatim>\<open>body\<close>, \<^verbatim>\<open>consequent\<close>/\<^verbatim>\<open>alternate\<close>, \<^verbatim>\<open>commands\<close> and \<^verbatim>\<open>redirects\<close>.
  \<open>spec_children\<close> are the children of a node in that reading, \<open>body_children\<close> the
  children through \<^verbatim>\<open>body\<close> alone. \<open>spec_preorder\<close> and \<open>body_preorder\<close> list the
  nodes reachable from a root in pre-order, depth first.
\<close>

definition body_children :: "ASTNode \<Rightarrow> ASTNode list" where
  "body_children node = (case body_of node of None \<Rightarrow> [] | Some body \<Rightarrow> present body)"

fun spec_children :: "ASTNode \<Rightarrow> ASTNode list" where
  "spec_children (Program loc body) = present body"
| "spec_children (Command loc name arguments redirects) =
     (case redirects of None \<Rightarrow> [] | Some rs \<Rightarrow> rs)"
| "spec_children (Conditional loc condition consequent alternate) =
     consequent @ (case alternate of Present alt \<Rightarrow> alt | _ \<Rightarrow> [])"
| "spec_children (Loop loc kind variable condition body) = present body"
| "spec_children (Function loc name body parameters) = present body"
| "spec_children (Pipeline loc commands negated) = commands"
| "spec_children (Subshell loc body) = present body"
| "spec_children (Other loc tag body) = (case body of None \<Rightarrow> [] | Some b \<Rightarrow> present b)"
| "spec_children node = []"

lemma set_present: "set (present slots) = {x. Some x \<in> set slots}"
  by (induction slots) (auto simp: present_def split: option.splits)

lemma size_slot: "Some c \<in> set b \<Longrightarrow> size c < size_list (size_option size) b"
  by (erule size_list_estimation) simp

lemma size_in_list: "c \<in> set xs \<Longrightarrow> size c < Suc (size_list size xs)"
  by (metis less_Suc_eq_le size_list_estimation' order_refl)

lemma size_body_children: "c \<in> set (body_children n) \<Longrightarrow> size c < size n"
  by (cases "body_of n") (auto simp: body_children_def set_present intro: size_body_child)

lemma size_spec_children: "c \<in> set (spec_children n) \<Longrightarrow> size c < size n"
proof (cases n)
  case (Conditional loc condition consequent alternate)
  assume "c \<in> set (spec_children n)"
  with Conditional show ?thesis
    by (cases alternate) (auto dest!: size_in_list)
next
  case (Command loc name arguments redirects)
  assume "c \<in> set (spec_children n)"
  with Command show ?thesis
    by (cases redirects) (auto dest!: size_in_list)
next
  case (Other loc tag body)
  assume "c \<in> set (spec_children n)"
  with Other show ?thesis
    by (cases body) (auto simp: set_present dest!: size_slot)
qed (auto simp: set_present dest!: size_in_list size_slot)

function body_preorder :: "ASTNode \<Rightarrow> ASTNode list" where
  "body_preorder node = node # concat (map body_preorder (body_children node))"
  by pat_completeness auto
termination
  by (relation "measure size") (auto dest: size_body_children)

function spec_preorder :: "ASTNode \<Rightarrow> ASTNode list" where
  "spec_preorder node = node # concat (map spec_preorder (spec_children node))"
  by pat_completeness auto
termination
  by (relation "measure size") (auto dest: size_spec_children)

definition of_kind :: "string \<Rightarrow> ASTNode \<Rightarrow> bool" where
  "of_kind K node = (node_type node = K)"

text \<open>The calls \<^verbatim>\<open>callback(node, path)\<close> that \<^verbatim>\<open>walkAST\<close> makes, in the order it
  makes them.\<close>

function visits :: "ASTNode \<Rightarrow> PathItem list \<Rightarrow> (ASTNode \<times> PathItem list) list" where
  "visits node path =
     (node, path) #
     (case body_of node of
        None \<Rightarrow> []
      | Some body \<Rightarrow>
          concat (map (\<lambda>(slot, index).
                         case slot of
                           None \<Rightarrow> []
                         | Some child \<Rightarrow> visits child (path @ [\<lparr>pi_node = child, pi_index = index\<rparr>]))
                   (zip body [0..<length body])))"
  by pat_completeness auto
termination
  by (relation "measure (\<lambda>(n, p). size n)")
     (auto dest!: set_zip_leftD size_body_child)

declare walkAST.simps [simp del] visits.simps [simp del]
  body_preorder.simps [simp del] spec_preorder.simps [simp del]

text \<open>
  Matching, in the words of the specification: two sequences are the same when they have
  equal length and pairwise strictly equal elements; a key of the filter matches when
  the node has a strictly equal value under it, except that under the key
  \<^verbatim>\<open>arguments\<close> a sequence in the filter is compared with the node's argument
  sequence element by element.
\<close>

fun same_sequence :: "jsval \<Rightarrow> jsval \<Rightarrow> bool" where
  "same_sequence (JArray xs) (JArray ys) =
     (length xs = length ys \<and> (\<forall>i \<in> {0..<length xs}. strict_eq (xs ! i) (ys ! i)))"
| "same_sequence _ _ = False"

definition spec_key_matches :: "ASTNode \<Rightarrow> string \<Rightarrow> jsval \<Rightarrow> bool" where
  "spec_key_matches node key expected =
     (if key = ''arguments'' \<and> isArray expected
      then same_sequence (get_prop node ''arguments'') expected
      else strict_eq (get_prop node key) expected)"

text \<open>A node with its child sequence emptied: what a node is apart from the elements
  of its \<^verbatim>\<open>body\<close>. Two nodes with the same \<open>without_body\<close> have the same kind and the
  same fields, and differ at most in the elements of their bodies.\<close>

fun without_body :: "ASTNode \<Rightarrow> ASTNode" where
  "without_body (Program loc body) = Program loc []"
| "without_body (Loop loc kind variable condition body) = Loop loc kind variable condition []"
| "without_body (Function loc name body parameters) = Function loc name [] parameters"
| "without_body (Subshell loc body) = Subshell loc []"
| "without_body (Other loc tag body) = Other loc tag (map_option (\<lambda>b. []) body)"
| "without_body node = node"

text \<open>The child sequence of the node a path resolves to, and the index steps of a
  path (all that \<^verbatim>\<open>getNodeAtPath\<close> reads of it).\<close>

definition body_at :: "Transformer \<Rightarrow> PathItem list \<Rightarrow> ASTNode option list option" where
  "body_at this path = Option.bind (getNodeAtPath this path) body_of"

definition indices :: "PathItem list \<Rightarrow> nat list" where
  "indices path = map pi_index path"

section \<open>Properties of the source generator\<close>

text \<open>
  Claim C7. A node whose kind is none of the kinds the generator knows renders as the
  empty string: the generator returns a string for it as for every node, it has no error
  result. A Comment node renders as \<^verbatim>\<open># \<close> followed by its value, whether its kind is
  \<^verbatim>\<open>line\<close> or \<^verbatim>\<open>block\<close>.
\<close>

theorem astToSource_unknown_kind_and_comment:
  "(node_type node \<notin> set known_kinds \<longrightarrow> astToSource node options = [])
   \<and> astToSource (Comment loc val Line) options = ''# '' @ val
   \<and> astToSource (Comment loc val Block) options = ''# '' @ val"
proof -
  have "astToSource node options = []" if "node_type node \<notin> set known_kinds"
    using that by (cases node) (simp_all add: known_kinds_def)
  then show ?thesis by simp
qed

theorem astToSource_unknown_kind_and_comment_witness:
  "astToSource (Other None ''Heredoc'' None) \<lparr>quote = None, indent = None, lineEnding = None\<rparr> = []
   \<and> astToSource (Comment None ''build step'' Block) \<lparr>quote = None, indent = None, lineEnding = None\<rparr>
       = ''# build step''"
  using astToSource_unknown_kind_and_comment
    [of "Other None ''Heredoc'' None" "\<lparr>quote = None, indent = None, lineEnding = None\<rparr>"
        None "''build step''"]
  by (simp add: known_kinds_def)

text \<open>
  Claim C8. A Variable node renders as its optional prefixes, then the name, \<^verbatim>\<open>=\<close> and
  the value. The export flag is tested first and the readonly flag second, each prefix
  being put in front of what is there already, so with both flags set the text starts
  \<^verbatim>\<open>readonly export \<close>. With only export set the text is \<^verbatim>\<open>export name=value\<close>, with
  only readonly set it is \<^verbatim>\<open>readonly name=value\<close>, with neither it is
  \<^verbatim>\<open>name=value\<close>.
\<close>

theorem astToSource_variable:
  "astToSource (Variable loc name val export readonly) options
     = (if truthy readonly then ''readonly '' else [])
       @ (if truthy export then ''export '' else []) @ name @ ''='' @ val
   \<and> (truthy export \<and> \<not> truthy readonly \<longrightarrow>
        astToSource (Variable loc name val export readonly) options = ''export '' @ name @ ''='' @ val)
   \<and> (\<not> truthy export \<and> truthy readonly \<longrightarrow>
        astToSource (Variable loc name val export readonly) options = ''readonly '' @ name @ ''='' @ val)
   \<and> (\<not> truthy export \<and> \<not> truthy readonly \<longrightarrow>
        astToSource (Variable loc name val export readonly) options = name @ ''='' @ val)"
  by simp

theorem astToSource_variable_witness:
  "astToSource (Variable None ''PATH'' ''/bin'' (Some True) None)
      \<lparr>quote = None, indent = None, lineEnding = None\<rparr> = ''export PATH=/bin''
   \<and> astToSource (Variable None ''PATH'' ''/bin'' (Some False) (Some True))
      \<lparr>quote = None, indent = None, lineEnding = None\<rparr> = ''readonly PATH=/bin''"
  using astToSource_variable
    [of None "''PATH''" "''/bin''" "Some True" None "\<lparr>quote = None, indent = None, lineEnding = None\<rparr>"]
    astToSource_variable
    [of None "''PATH''" "''/bin''" "Some False" "Some True" "\<lparr>quote = None, indent = None, lineEnding = None\<rparr>"]
  by simp

text \<open>
  Claim C10. A Loop node of kind \<^verbatim>\<open>until\<close> renders as the empty string, whatever its
  variable, condition and body are: only \<^verbatim>\<open>for\<close> and \<^verbatim>\<open>while\<close> have a branch, and a
  loop of either of these kinds renders as a text that is not empty.
\<close>

theorem astToSource_until_loop_empty:
  "astToSource (Loop loc Until variable condition body) options = []
   \<and> astToSource (Loop loc For variable condition body) options \<noteq> []
   \<and> astToSource (Loop loc While variable condition body) options \<noteq> []"
  by simp

section \<open>Properties of the query engine\<close>

lemma fold_concat_map: "fold g (concat (map f xs)) s = fold (\<lambda>x. fold g (f x)) xs s"
  by (induction xs arbitrary: s) auto

lemma walkAST_visits:
  "walkAST node callback path s = fold (\<lambda>(n, p). callback n p) (visits node path) s"
proof (induction node callback path s rule: walkAST.induct)
  case (1 node callback path s)
  show ?case
  proof (cases "body_of node")
    case None
    then show ?thesis by (simp add: walkAST.simps[of node] visits.simps[of node])
  next
    case (Some body)
    have "fold (\<lambda>(slot, index) acc. case slot of None \<Rightarrow> acc
              | Some child \<Rightarrow> walkAST child callback (path @ [\<lparr>pi_node = child, pi_index = index\<rparr>]) acc)
            (zip body [0..<length body]) s'
          = fold (\<lambda>x. fold (\<lambda>(n, p). callback n p)
                (case x of (slot, index) \<Rightarrow> case slot of None \<Rightarrow> []
                   | Some child \<Rightarrow> visits child (path @ [\<lparr>pi_node = child, pi_index = index\<rparr>])))
            (zip body [0..<length body]) s'" for s'
      by (rule fold_cong) (auto simp: "1.IH"[OF Some] split: option.splits)
    then show ?thesis
      by (simp add: walkAST.simps[of node] visits.simps[of node] Some fold_concat_map)
  qed
qed

lemma fold_collect:
  "fold (\<lambda>x acc. if P x then acc @ [f x] else acc) xs acc = acc @ map f (filter P xs)"
  by (induction xs arbitrary: acc) auto

lemma concat_map_slots:
  "concat (map (\<lambda>slot. case slot of None \<Rightarrow> [] | Some c \<Rightarrow> g c) slots) = concat (map g (present slots))"
  by (induction slots) (auto simp: present_def split: option.splits)

lemma map_fst_visits: "map fst (visits node path) = body_preorder node"
proof (induction node path rule: visits.induct)
  case (1 node path)
  show ?case
  proof (cases "body_of node")
    case None
    then show ?thesis
      by (simp add: visits.simps[of node] body_preorder.simps[of node] body_children_def)
  next
    case (Some body)
    have "map (\<lambda>x. map fst (case x of (slot, index) \<Rightarrow> case slot of None \<Rightarrow> []
                 | Some child \<Rightarrow> visits child (path @ [\<lparr>pi_node = child, pi_index = index\<rparr>])))
            (zip body [0..<length body])
          = map ((\<lambda>slot. case slot of None \<Rightarrow> [] | Some c \<Rightarrow> body_preorder c) \<circ> fst)
            (zip body [0..<length body])"
      by (rule map_cong) (auto simp: "1.IH"[OF Some] split: option.splits)
    also have "\<dots> = map (\<lambda>slot. case slot of None \<Rightarrow> [] | Some c \<Rightarrow> body_preorder c) body"
      by (simp add: map_map[symmetric] del: map_map)
    finally show ?thesis
      by (simp add: visits.simps[of node] body_preorder.simps[of node] body_children_def Some
          map_concat concat_map_slots o_def)
  qed
qed

lemma matchesFilter_empty: "matchesFilter node []"
  by (simp add: matchesFilter_def)

lemma findNodes_visits:
  "findNodes ast nodeType filter'
     = map (\<lambda>(n, p). \<lparr>np_value = n, np_path = p\<rparr>)
         (filter (\<lambda>(n, p). strict_eq (JStr (node_type n)) nodeType \<and> matchesFilter n filter')
            (visits ast []))"
  by (simp add: findNodes_def walkAST_visits case_prod_unfold fold_collect)

text \<open>The path captured in a handle resolves, in the tree that was searched, to the
  node of the handle.\<close>

lemma getNodeAtPath_from_None [simp]: "getNodeAtPath_from None path = None"
  by (cases path) auto

lemma visits_resolve:
  "(n, p) \<in> set (visits node path) \<Longrightarrow>
     \<exists>suffix. p = path @ suffix \<and> getNodeAtPath_from (Some node) suffix = Some n"
proof (induction node path arbitrary: n p rule: visits.induct)
  case (1 node path)
  show ?case
  proof (cases "(n, p) = (node, path)")
    case True
    then show ?thesis by simp
  next
    case False
    with "1.prems" have
      "\<exists>body index child. body_of node = Some body
          \<and> (Some child, index) \<in> set (zip body [0..<length body])
          \<and> (n, p) \<in> set (visits child (path @ [\<lparr>pi_node = child, pi_index = index\<rparr>]))"
      unfolding visits.simps[of node path]
      by (cases "body_of node") (auto split: option.splits)
    then obtain body index child where
      body: "body_of node = Some body"
      and mem: "(Some child, index) \<in> set (zip body [0..<length body])"
      and sub: "(n, p) \<in> set (visits child (path @ [\<lparr>pi_node = child, pi_index = index\<rparr>]))"
      by blast
    from "1.IH"[OF body mem refl refl sub] obtain suffix where
      p: "p = (path @ [\<lparr>pi_node = child, pi_index = index\<rparr>]) @ suffix"
      and r: "getNodeAtPath_from (Some child) suffix = Some n"
      by auto
    from mem have "slot_at body index = Some child"
      by (auto simp: slot_at_def in_set_zip)
    with body r have
      "getNodeAtPath_from (Some node) (\<lparr>pi_node = child, pi_index = index\<rparr> # suffix) = Some n"
      by simp
    with p show ?thesis by auto
  qed
qed

lemma findNodes_path_resolves:
  assumes "h \<in> set (findNodes ast nodeType filter')"
  shows "getNodeAtPath \<lparr>rootAST = Some ast\<rparr> (np_path h) = Some (np_value h)"
proof -
  from assms have "(np_value h, np_path h) \<in> set (visits ast [])"
    by (auto simp: findNodes_visits)
  from visits_resolve[OF this] show ?thesis
    by (simp add: getNodeAtPath_def)
qed

text \<open>
  What \<^verbatim>\<open>find(K, {})\<close> does return: the nodes of kind K that are reachable from the root
  through \<^verbatim>\<open>body\<close> sequences alone, in pre-order.
\<close>

lemma findNodes_body_preorder:
  "map np_value (findNodes ast (JStr K) []) = filter (of_kind K) (body_preorder ast)"
proof -
  have "map np_value (findNodes ast (JStr K) [])
        = map fst (filter ((of_kind K) \<circ> fst) (visits ast []))"
    by (simp add: findNodes_visits matchesFilter_empty case_prod_unfold o_def of_kind_def)
  also have "\<dots> = filter (of_kind K) (map fst (visits ast []))"
    by (simp add: filter_map)
  finally show ?thesis by (simp add: map_fst_visits)
qed

text \<open>
  Claim C1. \<^verbatim>\<open>find(K, {})\<close> is to return exactly the nodes of kind K that are reachable
  from the root through \<^verbatim>\<open>body\<close>, \<^verbatim>\<open>consequent\<close>/\<^verbatim>\<open>alternate\<close>, \<^verbatim>\<open>commands\<close> and
  \<^verbatim>\<open>redirects\<close>, in pre-order. The code does not: \<^verbatim>\<open>walkAST\<close>, described in its own
  comment as calling the callback for each node, descends through \<^verbatim>\<open>body\<close> alone. On
  the tree the Normalizer builds for an \<^verbatim>\<open>if\<close> statement holding one command (a
  Program whose body holds a Conditional whose consequent holds the Command), the query
  for commands returns the empty collection, where the claim asks for the command. The
  generator of the same class does descend into the consequent of that tree.
\<close>

theorem find_misses_nested_command:
  "map np_value
     (findNodes
        (Program None
           [Some (Conditional None ''true'' [Command None ''npm'' [''install''] None] Absent)])
        (JStr ''Command'') [])
   \<noteq> filter (of_kind ''Command'')
       (spec_preorder
          (Program None
             [Some (Conditional None ''true'' [Command None ''npm'' [''install''] None] Absent)]))
   \<and> findNodes
        (Program None
           [Some (Conditional None ''true'' [Command None ''npm'' [''install''] None] Absent)])
        (JStr ''Command'') [] = []
   \<and> filter (of_kind ''Command'')
       (spec_preorder
          (Program None
             [Some (Conditional None ''true'' [Command None ''npm'' [''install''] None] Absent)]))
     = [Command None ''npm'' [''install''] None]
   \<and> astToSource
        (Program None
           [Some (Conditional None ''true'' [Command None ''npm'' [''install''] None] Absent)])
        \<lparr>quote = None, indent = None, lineEnding = None\<rparr>
     = ''if true; then'' @ [CHR 0x0A] @ ''  npm install'' @ [CHR 0x0A] @ ''fi''"
  by code_simp

lemma arraysEqual_same_sequence: "arraysEqual a b = same_sequence a b"
  by (cases a; cases b) (auto simp: list_all_length)

lemma get_prop_arguments:
  "get_prop (Command loc name args redirects) ''arguments'' = JArray (map JStr args)"
  by (simp add: get_prop_def lookup_def strings_val_def)

text \<open>
  Claim C2. A node matches a filter exactly when every key of the filter matches: the
  node's value under the key is strictly equal to the filter's, except under the key
  \<^verbatim>\<open>arguments\<close>, where the sequence given in the filter matches exactly when the
  node has an argument sequence of the same length with pairwise strictly equal
  elements (a value under \<^verbatim>\<open>arguments\<close> that is no sequence is compared like the
  value of any other key). The empty filter matches every node. For a Command and a
  filter whose only key is \<^verbatim>\<open>arguments\<close> with a sequence A of strings, the node
  matches exactly when its arguments are A: the arrays are compared by their elements,
  not by reference.
\<close>

theorem matchesFilter_spec:
  "(matchesFilter node filter' \<longleftrightarrow>
      (\<forall>key \<in> set (map fst filter'). spec_key_matches node key (lookup filter' key)))
   \<and> matchesFilter node []
   \<and> (matchesFilter (Command loc name args redirects) [(''arguments'', JArray (map JStr A))]
        \<longleftrightarrow> args = A)"
proof -
  have a: "matchesFilter n f \<longleftrightarrow> (\<forall>key \<in> set (map fst f). spec_key_matches n key (lookup f key))"
    for n f
    by (simp add: matchesFilter_def list_all_iff spec_key_matches_def arraysEqual_same_sequence)
  have b: "matchesFilter node []"
    by (simp add: matchesFilter_def)
  have "matchesFilter (Command loc name args redirects) [(''arguments'', JArray (map JStr A))]
     \<longleftrightarrow> length args = length A \<and> (\<forall>i<length args. args ! i = A ! i)"
    by (auto simp: matchesFilter_def lookup_def get_prop_arguments arraysEqual_same_sequence
        simp del: arraysEqual.simps)
  then have c: "matchesFilter (Command loc name args redirects) [(''arguments'', JArray (map JStr A))]
     \<longleftrightarrow> args = A"
    by (simp add: list_eq_iff_nth_eq)
  from a b c show ?thesis by blast
qed

theorem matchesFilter_spec_witness:
  "matchesFilter (Command None ''git'' [''checkout'', ''-b'', ''feature''] None)
      [(''arguments'', JArray [JStr ''checkout'', JStr ''-b'', JStr ''feature''])]
   \<and> \<not> matchesFilter (Command None ''git'' [''checkout'', ''-b'', ''feature''] None)
      [(''arguments'', JArray [JStr ''checkout'', JStr ''-b''])]"
  using matchesFilter_spec
    [of "Command None ''git'' [''checkout'', ''-b'', ''feature''] None" "[]"
        None "''git''" "[''checkout'', ''-b'', ''feature'']" None "[''checkout'', ''-b'', ''feature'']"]
    matchesFilter_spec
    [of "Command None ''git'' [''checkout'', ''-b'', ''feature''] None" "[]"
        None "''git''" "[''checkout'', ''-b'', ''feature'']" None "[''checkout'', ''-b'']"]
  by simp

section \<open>Properties of the mutators\<close>

text \<open>
  Claim C3. On a handle whose captured path is empty (the handle of the root Program
  node) each of replace, insertBefore, insertAfter, remove and prune returns the
  transformer state it was given: the whole tree is unchanged. The mutators have no
  error result, so none of them raises.
\<close>

theorem root_path_mutators_noop:
  assumes "np_path h = []"
  shows "replaceNode h newNode this = this
       \<and> insertBeforeNode h newNode this = this
       \<and> insertAfterNode h newNode this = this
       \<and> removeNode h this = this
       \<and> pruneNode h this = this"
  using assms
  by (simp add: replaceNode_def insertBeforeNode_def insertAfterNode_def removeNode_def
      pruneNode_def)

theorem root_path_mutators_noop_witness:
  "replaceNode \<lparr>np_value = Program None [Some (Comment None ''x'' Line)], np_path = []\<rparr>
       (Comment None ''y'' Line) \<lparr>rootAST = Some (Program None [Some (Comment None ''x'' Line)])\<rparr>
     = \<lparr>rootAST = Some (Program None [Some (Comment None ''x'' Line)])\<rparr>
   \<and> removeNode \<lparr>np_value = Program None [Some (Comment None ''x'' Line)], np_path = []\<rparr>
       \<lparr>rootAST = Some (Program None [Some (Comment None ''x'' Line)])\<rparr>
     = \<lparr>rootAST = Some (Program None [Some (Comment None ''x'' Line)])\<rparr>"
  using root_path_mutators_noop
    [of "\<lparr>np_value = Program None [Some (Comment None ''x'' Line)], np_path = []\<rparr>"
        "Comment None ''y'' Line"
        "\<lparr>rootAST = Some (Program None [Some (Comment None ''x'' Line)])\<rparr>"]
  by simp

lemma getNodeAtPath_from_append:
  "getNodeAtPath_from current (p @ q) = getNodeAtPath_from (getNodeAtPath_from current p) q"
  by (induction p arbitrary: current) (auto split: option.splits)

lemma body_of_set_body: "body_of node = Some old \<Longrightarrow> body_of (set_body node b) = Some b"
  by (cases node) auto

lemma set_body_set_body: "set_body (set_body node b1) b2 = set_body node b2"
  by (cases node) auto

lemma slot_at_Some_length: "slot_at body i = Some c \<Longrightarrow> i < length body"
  by (auto simp: slot_at_def split: if_splits)

lemma slot_at_update_same: "i < length body \<Longrightarrow> slot_at (body[i := x]) i = x"
  by (simp add: slot_at_def)

lemma slot_at_update_other: "j \<noteq> i \<Longrightarrow> slot_at (body[i := x]) j = slot_at body j"
  by (simp add: slot_at_def)

text \<open>After \<open>store_body\<close> the path resolves to the same node with the new body.\<close>

lemma get_store_body:
  assumes "getNodeAtPath_from (Some node) p = Some parent" and "body_of parent = Some old"
  shows "getNodeAtPath_from (Some (store_body p b node)) p = Some (set_body parent b)"
  using assms
proof (induction p arbitrary: node)
  case Nil
  then show ?case by simp
next
  case (Cons x rest)
  from Cons.prems(1) obtain body child where
    body: "body_of node = Some body" and child: "slot_at body (pi_index x) = Some child"
    and rest: "getNodeAtPath_from (Some child) rest = Some parent"
    by (cases "body_of node"; cases "slot_at (the (body_of node)) (pi_index x)") auto
  from Cons.IH[OF rest Cons.prems(2)] body child show ?case
    by (simp add: body_of_set_body slot_at_update_same slot_at_Some_length)
qed

lemma store_body_twice:
  assumes "getNodeAtPath_from (Some node) p = Some parent" and "body_of parent = Some old"
  shows "store_body p b2 (store_body p b1 node) = store_body p b2 node"
  using assms
proof (induction p arbitrary: node)
  case Nil
  then show ?case by (simp add: body_of_set_body set_body_set_body)
next
  case (Cons x rest)
  from Cons.prems(1) obtain body child where
    body: "body_of node = Some body" and child: "slot_at body (pi_index x) = Some child"
    and rest: "getNodeAtPath_from (Some child) rest = Some parent"
    by (cases "body_of node"; cases "slot_at (the (body_of node)) (pi_index x)") auto
  from Cons.IH[OF rest Cons.prems(2)] body child show ?case
    by (simp add: body_of_set_body set_body_set_body slot_at_update_same slot_at_Some_length)
qed

text \<open>Overwriting one element of the body at path \<open>p\<close> changes nothing at a path that
  branches off \<open>p @ [i]\<close>.\<close>

lemma store_body_diverging:
  assumes "getNodeAtPath_from (Some node) p = Some parent" and "body_of parent = Some old"
    and "\<not> prefix (indices p @ [i]) (indices q)" and "\<not> prefix (indices q) (indices p @ [i])"
  shows "getNodeAtPath_from (Some (store_body p (old[i := x]) node)) q
           = getNodeAtPath_from (Some node) q"
  using assms
proof (induction p arbitrary: node q)
  case Nil
  then obtain j qs where q: "q = j # qs" and j: "pi_index j \<noteq> i"
    by (cases q) (auto simp: indices_def)
  with Nil show ?case
    by (simp add: body_of_set_body slot_at_update_other)
next
  case (Cons y rest)
  from Cons.prems(1) obtain body child where
    body: "body_of node = Some body" and child: "slot_at body (pi_index y) = Some child"
    and rest: "getNodeAtPath_from (Some child) rest = Some parent"
    by (cases "body_of node"; cases "slot_at (the (body_of node)) (pi_index y)") auto
  from Cons.prems(4) obtain j qs where q: "q = j # qs"
    by (cases q) (auto simp: indices_def)
  show ?case
  proof (cases "pi_index j = pi_index y")
    case True
    with Cons.prems(3,4) q have
      "\<not> prefix (indices rest @ [i]) (indices qs)" "\<not> prefix (indices qs) (indices rest @ [i])"
      by (auto simp: indices_def)
    from Cons.IH[OF rest Cons.prems(2) this] True body child q show ?thesis
      by (simp add: body_of_set_body slot_at_update_same slot_at_Some_length)
  next
    case False
    with body child q show ?thesis
      by (simp add: body_of_set_body slot_at_update_other)
  qed
qed

lemma body_at_write_body:
  assumes "body_at this p = Some old"
  shows "body_at (write_body this p b) p = Some b"
proof -
  from assms obtain root parent where
    root: "rootAST this = Some root" and parent: "getNodeAtPath_from (Some root) p = Some parent"
    and old: "body_of parent = Some old"
    by (cases "rootAST this")
       (auto simp: body_at_def getNodeAtPath_def Option.bind_eq_Some_conv)
  from get_store_body[OF parent old, of b] root old show ?thesis
    by (simp add: body_at_def getNodeAtPath_def write_body_def body_of_set_body)
qed

lemma mutator_unfold:
  assumes "np_path h = parentPath @ [lastPath]" and "body_at this parentPath = Some body"
  shows "replaceNode h X this = write_body this parentPath (assign_at (pi_index lastPath) X body)"
    and "insertBeforeNode h X this = write_body this parentPath (splice_insert (pi_index lastPath) X body)"
    and "insertAfterNode h X this = write_body this parentPath (splice_insert (pi_index lastPath + 1) X body)"
    and "removeNode h this = write_body this parentPath (splice_remove (pi_index lastPath) body)"
  using assms
  by (auto simp: replaceNode_def insertBeforeNode_def insertAfterNode_def removeNode_def
      body_at_def Option.bind_eq_Some_conv)

text \<open>
  Claim C4. Let the path of a handle end in index \<open>i\<close> and its steps before the last
  resolve to a parent whose child sequence \<open>body\<close> has an element at \<open>i\<close>. After
  \<^verbatim>\<open>insertBefore(X)\<close> the parent's sequence is one longer, \<open>X\<close> is at index \<open>i\<close>, the
  node addressed before is at \<open>i + 1\<close>, the elements before \<open>i\<close> are unchanged and those
  from \<open>i\<close> on have moved up by one. After \<^verbatim>\<open>insertAfter(X)\<close> the sequence is one longer,
  \<open>X\<close> is at index \<open>i + 1\<close>, the elements up to \<open>i\<close> are unchanged and those after \<open>i\<close>
  have moved up by one.
\<close>

theorem insert_splices_at_index:
  assumes "np_path h = parentPath @ [lastPath]"
    and "body_at this parentPath = Some body"
    and "pi_index lastPath = i" and "i < length body"
  shows "(\<exists>body'. body_at (insertBeforeNode h X this) parentPath = Some body'
            \<and> length body' = length body + 1
            \<and> body' ! i = Some X \<and> body' ! (i + 1) = body ! i
            \<and> (\<forall>j<i. body' ! j = body ! j)
            \<and> (\<forall>j. i \<le> j \<and> j < length body \<longrightarrow> body' ! (j + 1) = body ! j))
       \<and> (\<exists>body'. body_at (insertAfterNode h X this) parentPath = Some body'
            \<and> length body' = length body + 1
            \<and> body' ! (i + 1) = Some X
            \<and> (\<forall>j\<le>i. body' ! j = body ! j)
            \<and> (\<forall>j. i < j \<and> j < length body \<longrightarrow> body' ! (j + 1) = body ! j))"
proof -
  have before: "body_at (insertBeforeNode h X this) parentPath = Some (splice_insert i X body)"
    using assms by (simp add: mutator_unfold(2)[OF assms(1,2)] body_at_write_body)
  have after: "body_at (insertAfterNode h X this) parentPath = Some (splice_insert (i + 1) X body)"
    using assms by (simp add: mutator_unfold(3)[OF assms(1,2)] body_at_write_body)
  have nth: "splice_insert k X body ! j
      = (if j < k then body ! j else if j = k then Some X else body ! (j - 1))"
    if "k \<le> length body" for k j
    using that by (auto simp: splice_insert_def nth_append min_def nth_Cons')
  have len: "length (splice_insert k X body) = length body + 1" for k
    by (simp add: splice_insert_def)
  show ?thesis
    using assms(4) by (simp add: before after nth len)
qed

theorem insert_splices_at_index_witness:
  "body_at (insertBeforeNode
       \<lparr>np_value = Command None ''b'' [] None,
          np_path = [\<lparr>pi_node = Command None ''b'' [] None, pi_index = 1\<rparr>]\<rparr>
       (Comment None ''note'' Line)
       \<lparr>rootAST = Some (Program None [Some (Command None ''a'' [] None), Some (Command None ''b'' [] None)])\<rparr>) []
     = Some [Some (Command None ''a'' [] None), Some (Comment None ''note'' Line), Some (Command None ''b'' [] None)]
   \<and> body_at (insertAfterNode
       \<lparr>np_value = Command None ''b'' [] None,
          np_path = [\<lparr>pi_node = Command None ''b'' [] None, pi_index = 1\<rparr>]\<rparr>
       (Comment None ''note'' Line)
       \<lparr>rootAST = Some (Program None [Some (Command None ''a'' [] None), Some (Command None ''b'' [] None)])\<rparr>) []
     = Some [Some (Command None ''a'' [] None), Some (Command None ''b'' [] None), Some (Comment None ''note'' Line)]"
proof -
  let ?L = "\<lparr>pi_node = Command None ''b'' [] None, pi_index = 1\<rparr>"
  let ?H = "\<lparr>np_value = Command None ''b'' [] None, np_path = [?L]\<rparr>"
  let ?B = "[Some (Command None ''a'' [] None), Some (Command None ''b'' [] None)]"
  let ?T = "\<lparr>rootAST = Some (Program None ?B)\<rparr>"
  have h1: "np_path ?H = [] @ [?L]" by simp
  have h2: "body_at ?T [] = Some ?B" by (simp add: body_at_def getNodeAtPath_def)
  have h3: "pi_index ?L = 1" by simp
  have h4: "1 < length ?B" by simp
  from insert_splices_at_index[OF h1 h2 h3 h4, of "Comment None ''note'' Line"]
  show ?thesis
    by (simp add: insertBeforeNode_def insertAfterNode_def body_at_def getNodeAtPath_def
        write_body_def splice_insert_def)
qed

lemma assign_at_twice: "assign_at i x2 (assign_at i x1 body) = assign_at i x2 body"
  by (auto simp: assign_at_def nth_append list_update_append)

lemma replace_twice: "replaceNode h N2 (replaceNode h N1 this) = replaceNode h N2 this"
proof (cases "np_path h" rule: rev_cases)
  case Nil
  then show ?thesis by (simp add: replaceNode_def)
next
  case (snoc parentPath lastPath)
  show ?thesis
  proof (cases "body_at this parentPath")
    case None
    then have "replaceNode h N1 this = this"
      using snoc by (auto simp: replaceNode_def body_at_def Option.bind_eq_None_conv split: option.splits)
    then show ?thesis by simp
  next
    case (Some body)
    from Some obtain root parent where
      root: "rootAST this = Some root" and parent: "getNodeAtPath_from (Some root) parentPath = Some parent"
      and old: "body_of parent = Some body"
      by (cases "rootAST this")
        (auto simp: body_at_def getNodeAtPath_def Option.bind_eq_Some_conv)
    let ?b1 = "assign_at (pi_index lastPath) N1 body"
    have 1: "replaceNode h N1 this = write_body this parentPath ?b1"
      by (rule mutator_unfold(1)[OF snoc Some])
    have 2: "replaceNode h N2 (write_body this parentPath ?b1)
        = write_body (write_body this parentPath ?b1) parentPath (assign_at (pi_index lastPath) N2 ?b1)"
      by (rule mutator_unfold(1)[OF snoc body_at_write_body[OF Some]])
    have 3: "replaceNode h N2 this = write_body this parentPath (assign_at (pi_index lastPath) N2 body)"
      by (rule mutator_unfold(1)[OF snoc Some])
    have "replaceNode h N2 (replaceNode h N1 this)
        = write_body (write_body this parentPath ?b1) parentPath (assign_at (pi_index lastPath) N2 ?b1)"
      by (simp only: 1 2)
    also have "\<dots> = write_body this parentPath (assign_at (pi_index lastPath) N2 body)"
      by (simp add: assign_at_twice write_body_def root store_body_twice[OF parent old])
    also have "\<dots> = replaceNode h N2 this"
      by (simp only: 3)
    finally show ?thesis .
  qed
qed

lemma without_body_set_body:
  "body_of node = Some old \<Longrightarrow> without_body (set_body node b) = without_body node"
  by (cases node) auto

text \<open>Above the body that \<open>store_body\<close> writes, a node on the path keeps its kind and
  fields, and its body changes in the one slot the path goes through.\<close>

lemma store_body_ancestor:
  assumes "getNodeAtPath_from (Some node) (q @ k # rest) = Some parent"
    and "body_of parent = Some old"
  shows "\<exists>n n' b. getNodeAtPath_from (Some node) q = Some n
           \<and> getNodeAtPath_from (Some (store_body (q @ k # rest) nb node)) q = Some n'
           \<and> body_of n = Some b
           \<and> body_of n' = Some (b[pi_index k :=
                 getNodeAtPath_from (Some (store_body (q @ k # rest) nb node)) (q @ [k])])
           \<and> without_body n' = without_body n"
  using assms
proof (induction q arbitrary: node)
  case Nil
  from Nil.prems(1) obtain body child where
    body: "body_of node = Some body" and child: "slot_at body (pi_index k) = Some child"
    by (cases "body_of node"; cases "slot_at (the (body_of node)) (pi_index k)") auto
  then show ?case
    by (simp add: body_of_set_body slot_at_update_same slot_at_Some_length
        without_body_set_body)
next
  case (Cons x q')
  from Cons.prems(1) obtain body child where
    body: "body_of node = Some body" and child: "slot_at body (pi_index x) = Some child"
    and rest: "getNodeAtPath_from (Some child) (q' @ k # rest) = Some parent"
    by (cases "body_of node"; cases "slot_at (the (body_of node)) (pi_index x)") auto
  from Cons.IH[OF rest Cons.prems(2)] body child show ?case
    by (simp add: body_of_set_body slot_at_update_same slot_at_Some_length)
qed

lemma replace_ancestors:
  assumes path: "np_path h = parentPath @ [lastPath]"
    and res: "getNodeAtPath this (np_path h) = Some old"
    and split: "np_path h = q @ k # rest"
  shows "\<exists>n n' b. getNodeAtPath this q = Some n
           \<and> getNodeAtPath (replaceNode h N this) q = Some n'
           \<and> body_of n = Some b
           \<and> body_of n' = Some (b[pi_index k := getNodeAtPath (replaceNode h N this) (q @ [k])])
           \<and> without_body n' = without_body n"
proof -
  from path res obtain root where root: "rootAST this = Some root"
    by (cases "rootAST this") (auto simp: getNodeAtPath_def)
  from path res root obtain parent where
    parent: "getNodeAtPath_from (Some root) parentPath = Some parent"
    and slot: "getNodeAtPath_from (Some parent) [lastPath] = Some old"
    by (cases "getNodeAtPath_from (Some root) parentPath")
       (auto simp: getNodeAtPath_def getNodeAtPath_from_append)
  from slot obtain body where body: "body_of parent = Some body"
    and i: "slot_at body (pi_index lastPath) = Some old"
    by (cases "body_of parent") auto
  have len: "pi_index lastPath < length body"
    using i by (rule slot_at_Some_length)
  have at: "body_at this parentPath = Some body"
    using root parent body by (simp add: body_at_def getNodeAtPath_def)
  let ?nb = "body[pi_index lastPath := Some N]"
  have unfold: "replaceNode h N this = write_body this parentPath ?nb"
    using mutator_unfold(1)[OF path at, of N] len by (simp add: assign_at_def)
  have new: "getNodeAtPath (replaceNode h N this) p
      = getNodeAtPath_from (Some (store_body parentPath ?nb root)) p" for p
    by (simp add: unfold write_body_def getNodeAtPath_def root)
  show ?thesis
  proof (cases rest rule: rev_cases)
    case Nil
    with path split have q: "q = parentPath" and k: "k = lastPath" by auto
    have g0: "getNodeAtPath this parentPath = Some parent"
      by (simp add: getNodeAtPath_def root parent)
    have g1: "getNodeAtPath (replaceNode h N this) parentPath = Some (set_body parent ?nb)"
      by (simp only: new get_store_body[OF parent body])
    have g2: "getNodeAtPath (replaceNode h N this) (parentPath @ [lastPath]) = Some N"
      using len
      by (simp add: new getNodeAtPath_from_append get_store_body[OF parent body]
          body_of_set_body[OF body] slot_at_update_same)
    show ?thesis
      by (simp add: q k g0 g1 g2 body body_of_set_body[OF body] without_body_set_body[OF body])
  next
    case (snoc rest' l)
    with path split have pp: "parentPath = q @ k # rest'" by auto
    have g0: "getNodeAtPath this p = getNodeAtPath_from (Some root) p" for p
      by (simp add: getNodeAtPath_def root)
    from store_body_ancestor[OF parent[unfolded pp] body, of ?nb] show ?thesis
      unfolding new g0 pp .
  qed
qed

text \<open>
  Claim C5. Let the path of a handle resolve to a node of the tree. After
  \<^verbatim>\<open>replace(N)\<close>:
  \<^item> the path resolves to \<open>N\<close>;
  \<^item> the parent's child sequence is the old one with the element at the path's last
    index overwritten by \<open>N\<close>, so it has the same length and the same elements
    everywhere else;
  \<^item> every path that branches off the handle's path (neither is a beginning of the
    other) resolves to what it resolved to before, so every node beside the path is
    unchanged with all its child sequences;
  \<^item> every node on the way down to the replaced element (the root, each enclosing
    node, the parent) keeps its kind and all its fields, and its child sequence is the
    old one changed in the single slot the path goes through, which holds what the path
    resolves to there afterwards;
  \<^item> replacing with \<open>N1\<close> and then with \<open>N2\<close> gives the same tree as replacing with
    \<open>N2\<close> alone.
  Together these fix the whole tree after the replacement: the element the path resolved
  to is overwritten and no other element of any child sequence changes. (The tree is a
  value: a node object that sits at two places of the tree is outside this model.)
\<close>

theorem replace_overwrites_exactly:
  assumes "np_path h = parentPath @ [lastPath]"
    and "getNodeAtPath this (np_path h) = Some old"
  shows "getNodeAtPath (replaceNode h N this) (np_path h) = Some N
       \<and> (\<exists>body. body_at this parentPath = Some body
             \<and> body_at (replaceNode h N this) parentPath = Some (body[pi_index lastPath := Some N]))
       \<and> (\<forall>q. \<not> prefix (indices (np_path h)) (indices q) \<and> \<not> prefix (indices q) (indices (np_path h))
             \<longrightarrow> getNodeAtPath (replaceNode h N this) q = getNodeAtPath this q)
       \<and> (\<forall>q k rest. np_path h = q @ k # rest \<longrightarrow>
             (\<exists>n n' b. getNodeAtPath this q = Some n
                 \<and> getNodeAtPath (replaceNode h N this) q = Some n'
                 \<and> body_of n = Some b
                 \<and> body_of n' = Some (b[pi_index k := getNodeAtPath (replaceNode h N this) (q @ [k])])
                 \<and> without_body n' = without_body n))
       \<and> replaceNode h N2 (replaceNode h N1 this) = replaceNode h N2 this"
proof -
  from assms obtain root where root: "rootAST this = Some root"
    by (cases "rootAST this") (auto simp: getNodeAtPath_def)
  from assms root obtain parent where
    parent: "getNodeAtPath_from (Some root) parentPath = Some parent"
    and slot: "getNodeAtPath_from (Some parent) [lastPath] = Some old"
    by (cases "getNodeAtPath_from (Some root) parentPath")
       (auto simp: getNodeAtPath_def getNodeAtPath_from_append)
  from slot obtain body where body: "body_of parent = Some body"
    and i: "slot_at body (pi_index lastPath) = Some old"
    by (cases "body_of parent") auto
  have len: "pi_index lastPath < length body"
    using i by (rule slot_at_Some_length)
  have at: "body_at this parentPath = Some body"
    using root parent body by (simp add: body_at_def getNodeAtPath_def)
  have unfold: "replaceNode h N this = write_body this parentPath (body[pi_index lastPath := Some N])"
    using mutator_unfold(1)[OF assms(1) at, of N] len by (simp add: assign_at_def)
  have b: "body_at (replaceNode h N this) parentPath = Some (body[pi_index lastPath := Some N])"
    by (simp add: unfold body_at_write_body[OF at])
  have a: "getNodeAtPath (replaceNode h N this) (np_path h) = Some N"
    using b len
    by (auto simp: assms(1) body_at_def getNodeAtPath_def getNodeAtPath_from_append
        Option.bind_eq_Some_conv slot_at_update_same)
  have c: "getNodeAtPath (replaceNode h N this) q = getNodeAtPath this q"
    if "\<not> prefix (indices (np_path h)) (indices q)" "\<not> prefix (indices q) (indices (np_path h))" for q
    using store_body_diverging[OF parent body, of "pi_index lastPath" q "Some N"] that
    by (simp add: unfold write_body_def getNodeAtPath_def root assms(1) indices_def)
  have d: "\<exists>n n' b. getNodeAtPath this q = Some n
                 \<and> getNodeAtPath (replaceNode h N this) q = Some n'
                 \<and> body_of n = Some b
                 \<and> body_of n' = Some (b[pi_index k := getNodeAtPath (replaceNode h N this) (q @ [k])])
                 \<and> without_body n' = without_body n"
    if "np_path h = q @ k # rest" for q k rest
    by (rule replace_ancestors[OF assms that])
  have e: "replaceNode h N2 (replaceNode h N1 this) = replaceNode h N2 this"
    by (rule replace_twice)
  from at b have ab: "\<exists>body. body_at this parentPath = Some body
             \<and> body_at (replaceNode h N this) parentPath = Some (body[pi_index lastPath := Some N])"
    by blast
  from a ab c d e show ?thesis
    by blast
qed

theorem replace_overwrites_exactly_witness:
  "rootAST (replaceNode
       \<lparr>np_value = Command None ''c'' [] None,
          np_path =
            [\<lparr>pi_node = Loop None For (Some ''x'') None
                 [Some (Command None ''b'' [] None), Some (Command None ''c'' [] None)],
               pi_index = 1\<rparr>,
             \<lparr>pi_node = Command None ''c'' [] None, pi_index = 1\<rparr>]\<rparr>
       (Comment None ''note'' Line)
       \<lparr>rootAST = Some (Program None
          [Some (Command None ''a'' [] None),
           Some (Loop None For (Some ''x'') None
             [Some (Command None ''b'' [] None), Some (Command None ''c'' [] None)])])\<rparr>)
   = Some (Program None
          [Some (Command None ''a'' [] None),
           Some (Loop None For (Some ''x'') None
             [Some (Command None ''b'' [] None), Some (Comment None ''note'' Line)])])"
proof -
  let ?loop = "Loop None For (Some ''x'') None
                 [Some (Command None ''b'' [] None), Some (Command None ''c'' [] None)]"
  let ?P = "\<lparr>pi_node = ?loop, pi_index = 1\<rparr>"
  let ?L = "\<lparr>pi_node = Command None ''c'' [] None, pi_index = 1\<rparr>"
  let ?H = "\<lparr>np_value = Command None ''c'' [] None, np_path = [?P, ?L]\<rparr>"
  let ?T = "\<lparr>rootAST = Some (Program None [Some (Command None ''a'' [] None), Some ?loop])\<rparr>"
  have h1: "np_path ?H = [?P] @ [?L]" by simp
  have h2: "getNodeAtPath ?T (np_path ?H) = Some (Command None ''c'' [] None)"
    by (simp add: getNodeAtPath_def slot_at_def)
  from replace_overwrites_exactly[OF h1 h2, of "Comment None ''note'' Line"]
  show ?thesis
    by (simp add: replaceNode_def getNodeAtPath_def write_body_def assign_at_def slot_at_def)
qed

text \<open>
  Claim C6. prune gives the same transformer state as remove, on every handle and every
  state: nothing is cleaned up beyond the removal.
\<close>

theorem prune_equals_remove: "pruneNode h this = removeNode h this"
  by (simp add: pruneNode_def)

section \<open>Properties of the parser wrapper\<close>

text \<open>
  Claim C9. When the external parser raises an error on a source text, \<^verbatim>\<open>parse\<close> fails:
  its result is an error whose message is the parser's message behind the prefix
  \<^verbatim>\<open>Failed to parse bash source: \<close>, and no tree is returned.
\<close>

theorem parse_failure:
  assumes "parseBash source (parser_options this) = Inl message"
  shows "parse parseBash convertToJSCodeshiftAST this source
           = Inl (Error (''Failed to parse bash source: '' @ message))
       \<and> (\<forall>ast. parse parseBash convertToJSCodeshiftAST this source \<noteq> Inr ast)"
  using assms by (simp add: parse_def)

theorem parse_failure_witness:
  "parse (\<lambda>source opts. Inl ''Unexpected token'') (\<lambda>(raw :: unit) source. Inr (Program None []))
      (new_BashParser \<lparr>locations = None, comments = None, ranges = None\<rparr>) ''if then''
     = Inl (Error ''Failed to parse bash source: Unexpected token'')"
  using parse_failure
    [of "\<lambda>source opts. Inl ''Unexpected token''" "''if then''"
        "new_BashParser \<lparr>locations = None, comments = None, ranges = None\<rparr>"
        "''Unexpected token''" "\<lambda>(raw :: unit) source. Inr (Program None [])"]
  by simp

end
